theory Spec2Isabelle
  imports Complex_Main "HOL-Library.List_Lexorder"
begin

section \<open>Strings\<close>

text \<open>
  A Python \<open>str\<close> is a sequence of Unicode code points, so a string is a list of
  code points. \<open>ustr ''abc''\<close> is the literal. What Python knows about the ASCII code
  points is written out; for the code points from 128 on it is read from the tables of the
  Unicode database (alphanumeric, whitespace, lower case, decimal digit value), which are
  a parameter of every function that uses them. \<open>ascii_tables\<close> are the tables that know
  no code point beyond ASCII; the examples are computed with them.
\<close>

type_synonym ustring = "nat list"

abbreviation ustr :: "string \<Rightarrow> ustring" where
  "ustr s \<equiv> map of_char s"

record unicode_tables =
  uni_alnum :: "nat \<Rightarrow> bool"
  uni_space :: "nat \<Rightarrow> bool"
  uni_lower :: "nat \<Rightarrow> nat list"
  uni_decimal :: "nat \<Rightarrow> nat option"

definition ascii_tables :: unicode_tables where
  "ascii_tables = \<lparr>uni_alnum = (\<lambda>c. False), uni_space = (\<lambda>c. False), uni_lower = (\<lambda>c. [c]),
     uni_decimal = (\<lambda>c. None)\<rparr>"

definition is_word :: "unicode_tables \<Rightarrow> nat \<Rightarrow> bool" where
  \<comment> \<open>the class \<open>\w\<close> of \<open>re\<close> on \<open>str\<close>: alphanumeric or underscore\<close>
  "is_word U c \<longleftrightarrow>
     (if c < 128
      then (48 \<le> c \<and> c \<le> 57) \<or> (65 \<le> c \<and> c \<le> 90) \<or> (97 \<le> c \<and> c \<le> 122) \<or> c = 95
      else uni_alnum U c)"

definition is_space :: "unicode_tables \<Rightarrow> nat \<Rightarrow> bool" where
  \<comment> \<open>the class \<open>\s\<close> of \<open>re\<close> on \<open>str\<close>, which is also \<open>str.isspace\<close>, the
      separator set of \<open>str.split()\<close>\<close>
  "is_space U c \<longleftrightarrow>
     (if c < 128
      then (9 \<le> c \<and> c \<le> 13) \<or> (28 \<le> c \<and> c \<le> 31) \<or> c = 32
      else uni_space U c)"

definition lower_cp :: "unicode_tables \<Rightarrow> nat \<Rightarrow> nat list" where
  "lower_cp U c = (if c < 128 then (if 65 \<le> c \<and> c \<le> 90 then [c + 32] else [c]) else uni_lower U c)"

definition py_lower :: "unicode_tables \<Rightarrow> ustring \<Rightarrow> ustring" where
  \<comment> \<open>\<open>str.lower()\<close>\<close>
  "py_lower U s = concat (map (lower_cp U) s)"

definition endswith :: "ustring \<Rightarrow> ustring \<Rightarrow> bool" where
  \<comment> \<open>\<open>s.endswith(suffix)\<close>\<close>
  "endswith s suffix \<longleftrightarrow>
     length suffix \<le> length s \<and> drop (length s - length suffix) s = suffix"

fun py_split_from :: "(nat \<Rightarrow> bool) \<Rightarrow> ustring \<Rightarrow> ustring \<Rightarrow> ustring list" where
  "py_split_from sp cur [] = (if cur = [] then [] else [cur])"
| "py_split_from sp cur (c # cs) =
     (if sp c then (if cur = [] then py_split_from sp [] cs else cur # py_split_from sp [] cs)
      else py_split_from sp (cur @ [c]) cs)"

definition py_split :: "unicode_tables \<Rightarrow> ustring \<Rightarrow> ustring list" where
  \<comment> \<open>\<open>s.split()\<close>: the maximal runs of characters that are not whitespace\<close>
  "py_split U s = py_split_from (is_space U) [] s"

fun py_join :: "ustring \<Rightarrow> ustring list \<Rightarrow> ustring" where
  \<comment> \<open>\<open>sep.join(ws)\<close>\<close>
  "py_join sep [] = []"
| "py_join sep [w] = w"
| "py_join sep (w # v # ws) = w @ sep @ py_join sep (v # ws)"

section \<open>Title normalizer (\<open>utils.clean_title\<close>)\<close>

text \<open>
  The first substitution is \<open>re.sub(r'\.(pdf|epub|mobi|txt)$', '', title, flags=re.IGNORECASE)\<close>.
  Under \<open>IGNORECASE\<close> a lower-case letter of the pattern matches itself and its upper-case
  letter, and \<open>i\<close> also matches U+0130 and U+0131; the dot matches only itself.
  \<open>$\<close> matches at the end of the string and before a newline that is the last character,
  so the extension is found at the end of the string or, when the string ends with a
  newline, just before that newline; there is at most one match.
\<close>

definition ci_char :: "nat \<Rightarrow> nat \<Rightarrow> bool" where
  "ci_char p c \<longleftrightarrow>
     (if 97 \<le> p \<and> p \<le> 122
      then c = p \<or> c + 32 = p \<or> (p = 105 \<and> (c = 304 \<or> c = 305))
      else c = p)"

definition ends_ci :: "ustring \<Rightarrow> ustring \<Rightarrow> bool" where
  "ends_ci ext s \<longleftrightarrow>
     length ext \<le> length s \<and> list_all2 ci_char ext (drop (length s - length ext) s)"

definition strip_ext_at_end :: "ustring \<Rightarrow> ustring" where
  "strip_ext_at_end s =
     (if ends_ci (ustr ''.pdf'') s then take (length s - 4) s
      else if ends_ci (ustr ''.epub'') s then take (length s - 5) s
      else if ends_ci (ustr ''.mobi'') s then take (length s - 5) s
      else if ends_ci (ustr ''.txt'') s then take (length s - 4) s
      else s)"

definition sub_extension :: "ustring \<Rightarrow> ustring" where
  "sub_extension s =
     (if s \<noteq> [] \<and> last s = 10 then strip_ext_at_end (butlast s) @ [10]
      else strip_ext_at_end s)"

definition sub_special :: "unicode_tables \<Rightarrow> ustring \<Rightarrow> ustring" where
  \<comment> \<open>\<open>re.sub(r'[^\w\s\-]', ' ', title)\<close>\<close>
  "sub_special U s = map (\<lambda>c. if is_word U c \<or> is_space U c \<or> c = 45 then c else 32) s"

definition clean_title :: "unicode_tables \<Rightarrow> ustring \<Rightarrow> ustring" where
  "clean_title U title = py_join [32] (py_split U (sub_special U (sub_extension title)))"

fun adjacent_spaces :: "ustring \<Rightarrow> bool" where
  \<comment> \<open>two spaces next to each other somewhere in the string\<close>
  "adjacent_spaces (a # b # cs) = ((a = 32 \<and> b = 32) \<or> adjacent_spaces (b # cs))"
| "adjacent_spaces _ = False"

definition title_tokens :: "unicode_tables \<Rightarrow> ustring list \<Rightarrow> bool" where
  \<comment> \<open>the tokens a cleaned title is joined from: not empty, of word characters and hyphens\<close>
  "title_tokens U ws \<longleftrightarrow>
     (\<forall>w\<in>set ws. w \<noteq> [] \<and> (\<forall>c\<in>set w. \<not> is_space U c \<and> (is_word U c \<or> c = 45)))"

section \<open>Integers as text\<close>

fun digits_of :: "nat \<Rightarrow> ustring" where
  "digits_of n = (if n < 10 then [48 + n] else digits_of (n div 10) @ [48 + n mod 10])"

declare digits_of.simps [simp del]

definition str_int :: "int \<Rightarrow> ustring" where
  \<comment> \<open>\<open>str(i)\<close>, also the text an f-string puts for \<open>{i}\<close>\<close>
  "str_int i = (if i < 0 then 45 # digits_of (nat (- i)) else digits_of (nat i))"

text \<open>
  \<open>int(s)\<close> on a \<open>str\<close>: whitespace around the number is dropped (of the ASCII code
  points only 9 to 13 and 32 count here), one sign may lead, and the digits, decimal
  digits of any script, may be separated by single underscores. Everything else raises
  \<open>ValueError\<close>, which is \<open>None\<close>.
\<close>

definition int_space :: "unicode_tables \<Rightarrow> nat \<Rightarrow> bool" where
  "int_space U c \<longleftrightarrow> (if c < 128 then (9 \<le> c \<and> c \<le> 13) \<or> c = 32 else uni_space U c)"

definition digit_val :: "unicode_tables \<Rightarrow> nat \<Rightarrow> nat option" where
  "digit_val U c =
     (if c < 128 then (if 48 \<le> c \<and> c \<le> 57 then Some (c - 48) else None) else uni_decimal U c)"

fun parse_digits :: "unicode_tables \<Rightarrow> nat \<Rightarrow> bool \<Rightarrow> ustring \<Rightarrow> nat option" where
  "parse_digits U acc after_digit [] = (if after_digit then Some acc else None)"
| "parse_digits U acc after_digit (c # cs) =
     (case digit_val U c of
        Some v \<Rightarrow> parse_digits U (acc * 10 + v) True cs
      | None \<Rightarrow> if c = 95 \<and> after_digit then parse_digits U acc False cs else None)"

definition py_int :: "unicode_tables \<Rightarrow> ustring \<Rightarrow> int option" where
  "py_int U s =
     (case rev (dropWhile (int_space U) (rev (dropWhile (int_space U) s))) of
        [] \<Rightarrow> None
      | c # cs \<Rightarrow>
          if c = 45 then map_option (\<lambda>n. - int n) (parse_digits U 0 False cs)
          else if c = 43 then map_option int (parse_digits U 0 False cs)
          else map_option int (parse_digits U 0 False (c # cs)))"

section \<open>Result presenter (\<open>utils\<close>)\<close>

type_synonym book = "ustring \<times> int \<times> int \<times> ustring"
  \<comment> \<open>the tuple \<open>(title, message_id, chat_id, file_id)\<close> the store hands out\<close>

datatype button =
    PrevPage ustring
  | PageIndicator int int
  | NextPage ustring
  | AdLink ustring ustring

text \<open>
  A button carries what the handler reads back: the two page buttons their
  \<open>callback_data\<close>, the indicator (whose data is the fixed \<open>noop\<close>) the two numbers of
  its label, an advertisement its text and url. The fixed label texts are left out.
\<close>

definition page_callback :: "int \<Rightarrow> ustring \<Rightarrow> ustring" where
  \<comment> \<open>\<open>f"page_{p}_{query}"\<close>\<close>
  "page_callback p query = ustr ''page_'' @ str_int p @ [95] @ query"

definition create_pagination_keyboard ::
  "int \<Rightarrow> int \<Rightarrow> ustring \<Rightarrow> (ustring \<times> ustring) list \<Rightarrow> button list list" where
  "create_pagination_keyboard current_page total_pages query advertisements =
     ((if current_page > 1 then [PrevPage (page_callback (current_page - 1) query)] else [])
      @ [PageIndicator current_page total_pages]
      @ (if current_page < total_pages then [NextPage (page_callback (current_page + 1) query)]
         else []))
     # map (\<lambda>(ad_text, ad_url). [AdLink ad_text ad_url]) advertisements"




text \<open>
  \<open>handle_pagination\<close> takes the payload apart with \<open>query.data.split('_', 2)\<close>, which
  cuts at the first two underscores, and unpacks the result into three names: a payload
  with fewer than two underscores raises \<open>ValueError\<close>, as does a page that \<open>int\<close>
  rejects. The first part is not looked at.
\<close>

definition split_once :: "nat \<Rightarrow> ustring \<Rightarrow> (ustring \<times> ustring) option" where
  "split_once sep s =
     (case dropWhile (\<lambda>c. c \<noteq> sep) s of
        [] \<Rightarrow> None
      | _ # rest \<Rightarrow> Some (takeWhile (\<lambda>c. c \<noteq> sep) s, rest))"

definition split_max2 :: "nat \<Rightarrow> ustring \<Rightarrow> ustring list" where
  \<comment> \<open>\<open>s.split(sep, 2)\<close> for a separator of one character\<close>
  "split_max2 sep s =
     (case split_once sep s of
        None \<Rightarrow> [s]
      | Some (a, r) \<Rightarrow>
          (case split_once sep r of
             None \<Rightarrow> [a, r]
           | Some (b, q) \<Rightarrow> [a, b, q]))"

definition decode_payload :: "unicode_tables \<Rightarrow> ustring \<Rightarrow> (int \<times> ustring) option" where
  "decode_payload U data =
     (case split_max2 95 data of
        [_, page, search_query] \<Rightarrow> map_option (\<lambda>p. (p, search_query)) (py_int U page)
      | _ \<Rightarrow> None)"

section \<open>Catalog store (\<open>database.Database\<close>)\<close>

text \<open>
  The tables \<open>ebooks\<close> and \<open>advertisements\<close> are lists of rows in the order of their
  \<open>AUTOINCREMENT\<close> key, which is the order of insertion. \<open>added_date\<close> is the reading of
  the engine's clock at the insert, in seconds. The model follows the runs in which
  SQLite raises no \<open>sqlite3.Error\<close>; each method returns its result together with the
  store it leaves. A \<open>Database\<close> holds the name of its file and nothing else: no method
  of it can reach the chat.
\<close>

record ebook =
  title :: ustring
  message_id :: int
  chat_id :: int
  file_id :: ustring
  added_date :: nat

record advertisement =
  ad_id :: int
  ad_text :: ustring
  ad_url :: ustring
  is_active :: bool

record database =
  ebooks :: "ebook list"
  advertisements :: "advertisement list"

definition book_of :: "ebook \<Rightarrow> book" where
  "book_of e = (title e, message_id e, chat_id e, file_id e)"

definition check_book_exists :: "database \<Rightarrow> ustring \<Rightarrow> book option" where
  \<comment> \<open>\<open>WHERE title = ? LIMIT 1\<close> with no \<open>ORDER BY\<close>: SQLite walks \<open>idx_title\<close>, where
      equal titles stand in key order, and stops at the first row\<close>
  "check_book_exists db t = map_option book_of (find (\<lambda>e. title e = t) (ebooks db))"

definition add_book ::
  "database \<Rightarrow> ustring \<Rightarrow> int \<Rightarrow> int \<Rightarrow> ustring \<Rightarrow> nat \<Rightarrow> bool \<times> database" where
  "add_book db t msg chat fid now =
     (case check_book_exists db t of
        Some existing_book \<Rightarrow> (False, db)
      | None \<Rightarrow>
          (True, db\<lparr>ebooks := ebooks db @
             [\<lparr>title = t, message_id = msg, chat_id = chat, file_id = fid, added_date = now\<rparr>]\<rparr>))"

definition check_message_exists :: "database \<Rightarrow> int \<Rightarrow> int \<Rightarrow> bool" where
  \<comment> \<open>\<open>SELECT COUNT(*) FROM ebooks WHERE chat_id = ? AND message_id = ?\<close>, then \<open>count > 0\<close>\<close>
  "check_message_exists db chat msg \<longleftrightarrow>
     length (filter (\<lambda>e. chat_id e = chat \<and> message_id e = msg) (ebooks db)) > 0"

definition remove_deleted_messages :: "database \<Rightarrow> int \<Rightarrow> int \<Rightarrow> bool \<times> database" where
  "remove_deleted_messages db chat msg =
     (length (filter (\<lambda>e. chat_id e = chat \<and> message_id e = msg) (ebooks db)) > 0,
      db\<lparr>ebooks := filter (\<lambda>e. \<not> (chat_id e = chat \<and> message_id e = msg)) (ebooks db)\<rparr>)"

text \<open>
  \<open>LIKE\<close> of SQLite: \<open>%\<close> stands for any run of characters, \<open>_\<close> for any one character,
  and the ASCII letters match without regard to case. \<open>search_books\<close> wraps the query
  in two \<open>%\<close> and does not escape it.
\<close>

definition ascii_fold :: "nat \<Rightarrow> nat" where
  "ascii_fold c = (if 65 \<le> c \<and> c \<le> 90 then c + 32 else c)"

fun like :: "ustring \<Rightarrow> ustring \<Rightarrow> bool" where
  "like [] t = (t = [])"
| "like (p # ps) [] = (p = 37 \<and> like ps [])"
| "like (p # ps) (c # cs) =
     (if p = 37 then like ps (c # cs) \<or> like (p # ps) cs
      else (p = 95 \<or> ascii_fold p = ascii_fold c) \<and> like ps cs)"

definition matching_rows :: "database \<Rightarrow> ustring \<Rightarrow> ebook list" where
  "matching_rows db query = filter (\<lambda>e. like ([37] @ query @ [37]) (title e)) (ebooks db)"

fun first_per_title :: "ustring list \<Rightarrow> ebook list \<Rightarrow> ebook list" where
  "first_per_title seen [] = []"
| "first_per_title seen (e # es) =
     (if title e \<in> set seen then first_per_title seen es
      else e # first_per_title (title e # seen) es)"

text \<open>
  The rows with \<open>rn = 1\<close>: of each title the row with the latest \<open>added_date\<close>, then all
  of them by \<open>added_date\<close>, latest first. SQL leaves the order of rows with equal
  \<open>added_date\<close> to the engine; the model does what SQLite is seen to do, the earlier row
  within one title and the order of the titles between titles.
\<close>

definition ranked_books :: "database \<Rightarrow> ustring \<Rightarrow> ebook list" where
  "ranked_books db query =
     sort_key (\<lambda>e. - int (added_date e))
       (sort_key title
          (first_per_title [] (sort_key (\<lambda>e. - int (added_date e)) (matching_rows db query))))"

definition sql_limit_offset :: "int \<Rightarrow> int \<Rightarrow> 'a list \<Rightarrow> 'a list" where
  \<comment> \<open>\<open>LIMIT ? OFFSET ?\<close>: a negative offset is 0, a negative limit is no limit\<close>
  "sql_limit_offset row_limit row_offset xs =
     (if row_limit < 0 then drop (nat row_offset) xs
      else take (nat row_limit) (drop (nat row_offset) xs))"

definition paged_query :: "database \<Rightarrow> ustring \<Rightarrow> int \<Rightarrow> int \<Rightarrow> ebook list" where
  "paged_query db query page per_page =
     sql_limit_offset per_page ((page - 1) * per_page) (ranked_books db query)"

fun filter_deleted ::
  "database \<Rightarrow> book list \<Rightarrow> book list \<Rightarrow> int \<Rightarrow> (book list \<times> int) \<times> database" where
  "filter_deleted db [] valid_results actual_count = ((valid_results, actual_count), db)"
| "filter_deleted db ((t, msg, chat, fid) # rest) valid_results actual_count =
     (if check_message_exists db chat msg
      then filter_deleted db rest (valid_results @ [(t, msg, chat, fid)]) actual_count
      else filter_deleted (snd (remove_deleted_messages db chat msg)) rest
             valid_results (actual_count - 1))"

definition search_books ::
  "database \<Rightarrow> ustring \<Rightarrow> int \<Rightarrow> int \<Rightarrow> (book list \<times> int) \<times> database" where
  "search_books db query page per_page =
     (let results = paged_query db query page per_page in
      if results = [] then (([], 0), db)
      else filter_deleted db (map book_of results) [] (int (length (ranked_books db query))))"

definition remove_advertisement :: "database \<Rightarrow> int \<Rightarrow> bool \<times> database" where
  \<comment> \<open>\<open>UPDATE advertisements SET is_active = 0 WHERE id = ?\<close>; \<open>rowcount\<close> counts the rows
      the \<open>WHERE\<close> selects, changed or not\<close>
  "remove_advertisement db i =
     (length (filter (\<lambda>a. ad_id a = i) (advertisements db)) > 0,
      db\<lparr>advertisements :=
           map (\<lambda>a. if ad_id a = i then a\<lparr>is_active := False\<rparr> else a) (advertisements db)\<rparr>)"

definition edit_advertisement ::
  "database \<Rightarrow> int \<Rightarrow> ustring \<Rightarrow> ustring \<Rightarrow> bool \<times> database" where
  \<comment> \<open>\<open>UPDATE advertisements SET text = ?, url = ? WHERE id = ? AND is_active = 1\<close>\<close>
  "edit_advertisement db i new_text new_url =
     (length (filter (\<lambda>a. ad_id a = i \<and> is_active a) (advertisements db)) > 0,
      db\<lparr>advertisements :=
           map (\<lambda>a. if ad_id a = i \<and> is_active a then a\<lparr>ad_text := new_text, ad_url := new_url\<rparr>
                     else a) (advertisements db)\<rparr>)"

definition get_advertisement :: "database \<Rightarrow> int \<Rightarrow> (int \<times> ustring \<times> ustring) option" where
  "get_advertisement db i =
     map_option (\<lambda>a. (ad_id a, ad_text a, ad_url a))
       (find (\<lambda>a. ad_id a = i \<and> is_active a) (advertisements db))"

section \<open>Ingestion pipeline and navigation (\<open>handlers.MessageHandler\<close>)\<close>

datatype upload_reply =
    NoFileName
  | Unsupported
  | Duplicate ustring int int
  | Recorded ustring int int
  | SaveFailed

text \<open>
  \<open>handle_document\<close> from the point where the update carries a document. The reply is
  the message the handler sends: \<open>Duplicate\<close> with the title and the message and chat of
  the row found, \<open>Recorded\<close> with the title and the message and chat of the upload.
\<close>

definition is_ebook :: "unicode_tables \<Rightarrow> ustring \<Rightarrow> bool" where
  "is_ebook U file_name \<longleftrightarrow>
     list_ex (\<lambda>ext. endswith (py_lower U file_name) ext)
       [ustr ''.pdf'', ustr ''.epub'', ustr ''.mobi'', ustr ''.txt'']"

text \<open>
  \<open>store_upload\<close> is the end of the handler, shared by its two paths: \<open>add_book\<close> and the
  message chosen by its result.
\<close>

definition store_upload ::
  "database \<Rightarrow> ustring \<Rightarrow> int \<Rightarrow> int \<Rightarrow> ustring \<Rightarrow> nat \<Rightarrow> upload_reply \<times> database" where
  "store_upload db t msg chat fid now =
     (case add_book db t msg chat fid now of
        (success, db') \<Rightarrow> (if success then Recorded t msg chat else SaveFailed, db'))"

definition handle_document ::
  "unicode_tables \<Rightarrow> database \<Rightarrow> ustring option \<Rightarrow> int \<Rightarrow> int \<Rightarrow> ustring \<Rightarrow> nat
     \<Rightarrow> upload_reply \<times> database" where
  "handle_document U db file_name msg chat fid now =
     (case file_name of
        None \<Rightarrow> (NoFileName, db)
      | Some name \<Rightarrow>
          if name = [] then (NoFileName, db)
          else if \<not> is_ebook U name then (Unsupported, db)
          else
            (case check_book_exists db (clean_title U name) of
               Some (existing_title, existing_msg_id, existing_chat_id, _) \<Rightarrow>
                 if check_message_exists db existing_chat_id existing_msg_id
                 then (Duplicate existing_title existing_msg_id existing_chat_id, db)
                 else store_upload
                        (snd (remove_deleted_messages db existing_chat_id existing_msg_id))
                        (clean_title U name) msg chat fid now
             | None \<Rightarrow> store_upload db (clean_title U name) msg chat fid now))"



section \<open>The statements of the specification\<close>

definition most_recent_titled :: "database \<Rightarrow> ustring \<Rightarrow> book option" where
  \<comment> \<open>what the specification asks of \<open>entryExists\<close>: the most recently inserted row of
      that title\<close>
  "most_recent_titled db t =
     (case filter (\<lambda>e. title e = t) (ebooks db) of
        [] \<Rightarrow> None
      | e # es \<Rightarrow> Some (book_of (last (e # es))))"

section \<open>Example stores\<close>

definition stale_store :: database where
  \<comment> \<open>one entry, titled X, for message 1 of chat 1\<close>
  "stale_store =
     \<lparr>ebooks = [\<lparr>title = ustr ''X'', message_id = 1, chat_id = 1, file_id = ustr ''f1'',
                  added_date = 100\<rparr>],
      advertisements = []\<rparr>"

definition twice_store :: database where
  \<comment> \<open>two entries titled X, the second inserted later\<close>
  "twice_store =
     \<lparr>ebooks = [\<lparr>title = ustr ''X'', message_id = 1, chat_id = 1, file_id = ustr ''f1'',
                  added_date = 100\<rparr>,
                \<lparr>title = ustr ''X'', message_id = 2, chat_id = 1, file_id = ustr ''f2'',
                  added_date = 200\<rparr>],
      advertisements = []\<rparr>"

definition retired_store :: database where
  \<comment> \<open>one advertisement, number 1, already inactive\<close>
  "retired_store =
     \<lparr>ebooks = [],
      advertisements = [\<lparr>ad_id = 1, ad_text = ustr ''join'', ad_url = ustr ''https://t.me/x'',
                         is_active = False\<rparr>]\<rparr>"


section \<open>Properties of the title normalizer\<close>


lemma split_from_tokens:
  "\<forall>c\<in>set cur. \<not> sp c \<Longrightarrow> w \<in> set (py_split_from sp cur s) \<Longrightarrow>
     w \<noteq> [] \<and> (\<forall>c\<in>set w. \<not> sp c \<and> (c \<in> set cur \<or> c \<in> set s))"
proof (induction s arbitrary: cur)
  case Nil
  then show ?case by (auto split: if_splits)
next
  case (Cons c cs)
  show ?case
  proof (cases "sp c")
    case True
    with Cons.prems have "w = cur \<and> cur \<noteq> [] \<or> w \<in> set (py_split_from sp [] cs)"
      by (auto split: if_splits)
    then show ?thesis
    proof
      assume "w = cur \<and> cur \<noteq> []"
      with Cons.prems(1) show ?thesis by simp
    next
      assume "w \<in> set (py_split_from sp [] cs)"
      then have "w \<noteq> [] \<and> (\<forall>x\<in>set w. \<not> sp x \<and> (x \<in> set [] \<or> x \<in> set cs))"
        by (intro Cons.IH) simp_all
      then show ?thesis by simp
    qed
  next
    case False
    with Cons.prems have "w \<in> set (py_split_from sp (cur @ [c]) cs)" by simp
    moreover from False Cons.prems(1) have "\<forall>x\<in>set (cur @ [c]). \<not> sp x" by simp
    ultimately have "w \<noteq> [] \<and> (\<forall>x\<in>set w. \<not> sp x \<and> (x \<in> set (cur @ [c]) \<or> x \<in> set cs))"
      by (rule Cons.IH [rotated])
    then show ?thesis by simp blast
  qed
qed

lemma split_from_append:
  "\<forall>c\<in>set w. \<not> sp c \<Longrightarrow> py_split_from sp cur (w @ s) = py_split_from sp (cur @ w) s"
  by (induction w arbitrary: cur) simp_all

lemma split_from_token:
  "w \<noteq> [] \<Longrightarrow> \<forall>c\<in>set w. \<not> sp c \<Longrightarrow> py_split_from sp [] w = [w]"
  using split_from_append [of w sp "[]" "[]"] by simp

lemma split_from_token_sep:
  "sp 32 \<Longrightarrow> w \<noteq> [] \<Longrightarrow> \<forall>c\<in>set w. \<not> sp c \<Longrightarrow>
     py_split_from sp [] (w @ 32 # s) = w # py_split_from sp [] s"
  using split_from_append [of w sp "[]" "32 # s"] by simp

lemma split_from_join:
  "sp 32 \<Longrightarrow> \<forall>w\<in>set ws. w \<noteq> [] \<and> (\<forall>c\<in>set w. \<not> sp c) \<Longrightarrow>
     py_split_from sp [] (py_join [32] ws) = ws"
proof (induction ws)
  case Nil
  show ?case by simp
next
  case (Cons w ws)
  show ?case
  proof (cases ws)
    case Nil
    with Cons.prems show ?thesis by (simp add: split_from_token)
  next
    case (Cons v vs)
    from Cons.prems have w: "w \<noteq> []" "\<forall>c\<in>set w. \<not> sp c" by simp_all
    from Cons.IH Cons.prems have "py_split_from sp [] (py_join [32] ws) = ws" by simp
    with Cons w \<open>sp 32\<close> show ?thesis by (simp add: split_from_token_sep)
  qed
qed


lemma set_join:
  "c \<in> set (py_join [32] ws) \<Longrightarrow> c = 32 \<or> (\<exists>w\<in>set ws. c \<in> set w)"
proof (induction ws)
  case Nil
  then show ?case by simp
next
  case (Cons w ws)
  then show ?case by (cases ws) auto
qed

lemma hd_join:
  "\<forall>w\<in>set ws. w \<noteq> [] \<Longrightarrow> ws \<noteq> [] \<Longrightarrow> hd (py_join [32] ws) = hd (hd ws)"
proof (cases ws)
  case Nil
  assume "ws \<noteq> []"
  with Nil show ?thesis by simp
next
  case (Cons w vs)
  assume "\<forall>w\<in>set ws. w \<noteq> []"
  with Cons show ?thesis by (cases vs) simp_all
qed

lemma join_nonempty:
  "\<forall>w\<in>set ws. w \<noteq> [] \<Longrightarrow> ws \<noteq> [] \<Longrightarrow> py_join [32] ws \<noteq> []"
proof (cases ws)
  case Nil
  assume "ws \<noteq> []"
  with Nil show ?thesis by simp
next
  case (Cons w vs)
  assume "\<forall>w\<in>set ws. w \<noteq> []"
  with Cons show ?thesis by (cases vs) simp_all
qed

lemma join_empty_iff:
  "\<forall>w\<in>set ws. w \<noteq> [] \<Longrightarrow> py_join [32] ws = [] \<longleftrightarrow> ws = []"
  using join_nonempty [of ws] by auto

lemma last_join:
  "\<forall>w\<in>set ws. w \<noteq> [] \<Longrightarrow> ws \<noteq> [] \<Longrightarrow> last (py_join [32] ws) = last (last ws)"
proof (induction ws)
  case Nil
  then show ?case by simp
next
  case (Cons w ws)
  show ?case
  proof (cases ws)
    case Nil
    then show ?thesis by simp
  next
    case (Cons v vs)
    with Cons.prems have "py_join [32] ws \<noteq> []" by (intro join_nonempty) simp_all
    moreover from Cons Cons.IH Cons.prems have "last (py_join [32] ws) = last (last ws)" by simp
    ultimately show ?thesis using Cons by simp
  qed
qed

lemma adjacent_spaces_append:
  "w \<noteq> [] \<Longrightarrow> 32 \<notin> set w \<Longrightarrow> v \<noteq> [] \<Longrightarrow> hd v \<noteq> 32 \<Longrightarrow> \<not> adjacent_spaces v \<Longrightarrow>
     \<not> adjacent_spaces (w @ 32 # v)"
proof (induction w rule: induct_list012)
  case 1
  then show ?case by simp
next
  case (2 x)
  then show ?case by (cases v) simp_all
next
  case (3 x y zs)
  then show ?case by simp
qed

lemma adjacent_spaces_token:
  "32 \<notin> set w \<Longrightarrow> \<not> adjacent_spaces w"
  by (induction w rule: adjacent_spaces.induct) simp_all

lemma adjacent_spaces_join:
  "\<forall>w\<in>set ws. w \<noteq> [] \<and> 32 \<notin> set w \<Longrightarrow> \<not> adjacent_spaces (py_join [32] ws)"
proof (induction ws)
  case Nil
  show ?case by simp
next
  case (Cons w ws)
  show ?case
  proof (cases ws)
    case Nil
    with Cons.prems show ?thesis by (simp add: adjacent_spaces_token)
  next
    case (Cons v vs)
    from Cons.prems have w: "w \<noteq> []" "32 \<notin> set w" by simp_all
    from Cons.prems have ws: "\<forall>w\<in>set ws. w \<noteq> []" by simp
    from Cons have ne: "ws \<noteq> []" by simp
    have "py_join [32] ws \<noteq> []" using ws ne by (rule join_nonempty)
    moreover have "hd (py_join [32] ws) \<noteq> 32"
      using hd_join [OF ws ne] Cons Cons.prems by (cases v) auto
    moreover have "\<not> adjacent_spaces (py_join [32] ws)" using Cons.IH Cons.prems by simp
    ultimately have "\<not> adjacent_spaces (w @ 32 # py_join [32] ws)"
      using w by (intro adjacent_spaces_append)
    with Cons show ?thesis by simp
  qed
qed

lemma adjacent_spaces_nth:
  "Suc i < length s \<Longrightarrow> s ! i = 32 \<Longrightarrow> s ! Suc i = 32 \<Longrightarrow> adjacent_spaces s"
proof (induction s arbitrary: i rule: adjacent_spaces.induct)
  case (1 a b cs)
  show ?case
  proof (cases i)
    case 0
    with "1.prems" show ?thesis by simp
  next
    case (Suc j)
    with "1.prems" have "adjacent_spaces (b # cs)" by (intro "1.IH" [of j]) simp_all
    then show ?thesis by simp
  qed
qed simp_all


lemma ends_ci_dot:
  "ends_ci (46 # ext) s \<Longrightarrow> 46 \<in> set s"
proof -
  assume "ends_ci (46 # ext) s"
  then obtain y ys where d: "drop (length s - length (46 # ext)) s = y # ys" and "ci_char 46 y"
    by (auto simp: ends_ci_def list_all2_Cons1)
  then have "y = 46" by (simp add: ci_char_def)
  moreover from d have "y \<in> set (drop (length s - length (46 # ext)) s)" by simp
  ultimately show ?thesis by (blast dest: in_set_dropD)
qed

lemma strip_ext_no_dot:
  "46 \<notin> set s \<Longrightarrow> strip_ext_at_end s = s"
proof -
  assume "46 \<notin> set s"
  then have "\<not> ends_ci (46 # ext) s" for ext using ends_ci_dot [of ext s] by blast
  then show ?thesis by (simp add: strip_ext_at_end_def)
qed

lemma sub_special_range:
  "c \<in> set (sub_special U s) \<Longrightarrow> is_word U c \<or> is_space U c \<or> c = 45"
  by (auto simp: sub_special_def is_space_def split: if_splits)

lemma title_tokens_split:
  "title_tokens U (py_split U (sub_special U s))"
  unfolding title_tokens_def py_split_def
proof (intro ballI)
  fix w assume "w \<in> set (py_split_from (is_space U) [] (sub_special U s))"
  then have "w \<noteq> [] \<and> (\<forall>c\<in>set w. \<not> is_space U c \<and> (c \<in> set [] \<or> c \<in> set (sub_special U s)))"
    by (intro split_from_tokens) simp_all
  then show "w \<noteq> [] \<and> (\<forall>c\<in>set w. \<not> is_space U c \<and> (is_word U c \<or> c = 45))"
    using sub_special_range [of _ U s] by auto
qed

lemma join_tokens_chars:
  assumes "title_tokens U ws" and "c \<in> set (py_join [32] ws)"
  shows "(is_word U c \<or> c = 45 \<or> c = 32) \<and> (is_space U c \<longrightarrow> c = 32) \<and> c \<noteq> 46"
proof -
  from set_join [OF assms(2)] have "c = 32 \<or> (\<exists>w\<in>set ws. c \<in> set w)" .
  then show ?thesis
  proof
    assume "c = 32" then show ?thesis by simp
  next
    assume "\<exists>w\<in>set ws. c \<in> set w"
    with assms(1) have "\<not> is_space U c" "is_word U c \<or> c = 45"
      by (auto simp: title_tokens_def)
    then show ?thesis by (auto simp: is_word_def)
  qed
qed

lemma join_tokens_ends:
  assumes "title_tokens U ws" and "py_join [32] ws \<noteq> []"
  shows "\<not> is_space U (hd (py_join [32] ws)) \<and> \<not> is_space U (last (py_join [32] ws))"
proof -
  from assms(2) have ne: "ws \<noteq> []" by auto
  from assms(1) have t: "\<forall>w\<in>set ws. w \<noteq> []" by (simp add: title_tokens_def)
  from ne t have "hd ws \<noteq> []" "last ws \<noteq> []" by simp_all
  with ne have "hd (hd ws) \<in> set (hd ws)" "hd ws \<in> set ws"
    "last (last ws) \<in> set (last ws)" "last ws \<in> set ws" by simp_all
  with assms(1) have "\<not> is_space U (hd (hd ws))" "\<not> is_space U (last (last ws))"
    by (auto simp: title_tokens_def)
  then show ?thesis by (simp add: hd_join [OF t ne] last_join [OF t ne])
qed

lemma join_tokens_fixed:
  assumes "title_tokens U ws"
  shows "clean_title U (py_join [32] ws) = py_join [32] ws"
proof -
  let ?N = "py_join [32] ws"
  have dot: "46 \<notin> set ?N" using join_tokens_chars [OF assms] by blast
  have "\<not> (?N \<noteq> [] \<and> last ?N = 10)"
  proof
    assume a: "?N \<noteq> [] \<and> last ?N = 10"
    then have "\<not> is_space U (last ?N)" using join_tokens_ends [OF assms] by blast
    with a show False by (simp add: is_space_def)
  qed
  then have "sub_extension ?N = strip_ext_at_end ?N"
    unfolding sub_extension_def by (rule if_not_P)
  then have "sub_extension ?N = ?N"
    using dot by (simp add: strip_ext_no_dot)
  moreover have "sub_special U ?N = ?N"
    unfolding sub_special_def
  proof (intro map_idI)
    fix c assume "c \<in> set ?N"
    then have "is_word U c \<or> c = 45 \<or> c = 32" using join_tokens_chars [OF assms] by blast
    moreover have "is_space U 32" by (simp add: is_space_def)
    ultimately show "(if is_word U c \<or> is_space U c \<or> c = 45 then c else 32) = c" by auto
  qed
  moreover have "py_split U ?N = ws"
    unfolding py_split_def using assms
    by (intro split_from_join) (auto simp: title_tokens_def is_space_def)
  ultimately show ?thesis by (simp add: clean_title_def)
qed

text \<open>
  Claim C6. The title normalizer is idempotent: cleaning a cleaned title changes nothing,
  for every input string and whatever the Unicode tables say about the characters
  beyond ASCII.
\<close>

theorem clean_title_idempotent:
  "clean_title U (clean_title U x) = clean_title U x"
  unfolding clean_title_def [of U x]
  by (rule join_tokens_fixed) (rule title_tokens_split)

theorem clean_title_idempotent_witness:
  "clean_title ascii_tables (clean_title ascii_tables (ustr ''a.b  c.txt'')) = ustr ''a b c''"
proof -
  have "clean_title ascii_tables (ustr ''a.b  c.txt'') = ustr ''a b c''"
    by code_simp
  then show ?thesis
    using clean_title_idempotent [of ascii_tables "ustr ''a.b  c.txt''"] by simp
qed

text \<open>
  Claim C10. For every input string, every character of the cleaned title is a word
  character (letter, digit, underscore), a hyphen or the space 32; the only whitespace in
  it is the space 32; it neither starts nor ends with whitespace; no two spaces are next
  to each other; and it holds no dot.
\<close>

theorem clean_title_output_shape:
  "(\<forall>c\<in>set (clean_title U x). is_word U c \<or> c = 45 \<or> c = 32)
   \<and> (\<forall>c\<in>set (clean_title U x). is_space U c \<longrightarrow> c = 32)
   \<and> (clean_title U x \<noteq> [] \<longrightarrow>
        \<not> is_space U (hd (clean_title U x)) \<and> \<not> is_space U (last (clean_title U x)))
   \<and> (\<forall>i. Suc i < length (clean_title U x) \<longrightarrow>
        \<not> (clean_title U x ! i = 32 \<and> clean_title U x ! Suc i = 32))
   \<and> 46 \<notin> set (clean_title U x)"
proof -
  let ?ws = "py_split U (sub_special U (sub_extension x))"
  have N: "clean_title U x = py_join [32] ?ws" by (simp add: clean_title_def)
  have t: "title_tokens U ?ws" by (rule title_tokens_split)
  have chars: "\<forall>c\<in>set (py_join [32] ?ws).
      (is_word U c \<or> c = 45 \<or> c = 32) \<and> (is_space U c \<longrightarrow> c = 32) \<and> c \<noteq> 46"
    using join_tokens_chars [OF t] by blast
  have sp: "is_space U 32" by (simp add: is_space_def)
  have "\<forall>w\<in>set ?ws. w \<noteq> [] \<and> 32 \<notin> set w"
    using t sp unfolding title_tokens_def by blast
  then have "\<not> adjacent_spaces (py_join [32] ?ws)" by (rule adjacent_spaces_join)
  then have adj: "\<forall>i. Suc i < length (py_join [32] ?ws) \<longrightarrow>
      \<not> (py_join [32] ?ws ! i = 32 \<and> py_join [32] ?ws ! Suc i = 32)"
    using adjacent_spaces_nth by blast
  show ?thesis
    unfolding N using chars adj join_tokens_ends [OF t] by blast
qed

lemma clean_title_example:
  "clean_title ascii_tables (ustr ''My Book.PDF'') = ustr ''My Book''"
  by code_simp

lemma clean_title_newline_example:
  "clean_title ascii_tables (ustr ''a.PDF'' @ [10]) = ustr ''a''"
  by code_simp

theorem clean_title_output_shape_witness:
  "clean_title ascii_tables (ustr ''..My  Book-1.PDF'') = ustr ''My Book-1''
   \<and> 32 \<in> set (clean_title ascii_tables (ustr ''..My  Book-1.PDF''))
   \<and> is_space ascii_tables 32
   \<and> list_all (\<lambda>c. is_word ascii_tables c \<or> c = 45 \<or> c = 32)
        (clean_title ascii_tables (ustr ''..My  Book-1.PDF''))
   \<and> clean_title ascii_tables (ustr ''..My  Book-1.PDF'') \<noteq> []
   \<and> \<not> is_space ascii_tables (hd (clean_title ascii_tables (ustr ''..My  Book-1.PDF'')))
   \<and> \<not> is_space ascii_tables (last (clean_title ascii_tables (ustr ''..My  Book-1.PDF'')))
   \<and> Suc 2 < length (clean_title ascii_tables (ustr ''..My  Book-1.PDF''))
   \<and> clean_title ascii_tables (ustr ''..My  Book-1.PDF'') ! 2 = 32
   \<and> clean_title ascii_tables (ustr ''..My  Book-1.PDF'') ! Suc 2 \<noteq> 32
   \<and> 46 \<notin> set (clean_title ascii_tables (ustr ''..My  Book-1.PDF''))"
proof -
  have e: "clean_title ascii_tables (ustr ''..My  Book-1.PDF'') = ustr ''My Book-1''"
    by code_simp
  have n: "Suc 2 = 3" by simp
  show ?thesis
    using clean_title_output_shape [of ascii_tables "ustr ''..My  Book-1.PDF''"]
    unfolding e n by (simp add: is_space_def is_word_def)
qed

section \<open>Properties of the navigation payload\<close>


lemma digits_of_range:
  "c \<in> set (digits_of n) \<Longrightarrow> 48 \<le> c \<and> c \<le> 57"
proof (induction n arbitrary: c rule: digits_of.induct)
  case (1 n)
  show ?case
  proof (cases "n < 10")
    case True
    with "1.prems" show ?thesis by (simp add: digits_of.simps [of n])
  next
    case False
    with "1.prems" have "c \<in> set (digits_of (n div 10)) \<or> c = 48 + n mod 10"
      by (auto simp: digits_of.simps [of n])
    then show ?thesis
    proof
      assume "c \<in> set (digits_of (n div 10))"
      with False show ?thesis using "1.IH" [of c] by simp
    next
      assume "c = 48 + n mod 10"
      moreover have "n mod 10 < 10" by simp
      ultimately show ?thesis by linarith
    qed
  qed
qed

lemma digits_of_nonempty:
  "digits_of n \<noteq> []"
  by (simp add: digits_of.simps [of n])

lemma digit_val_digit:
  "48 \<le> c \<Longrightarrow> c \<le> 57 \<Longrightarrow> digit_val U c = Some (c - 48)"
  by (simp add: digit_val_def)

lemma parse_digits_of:
  "parse_digits U 0 d (digits_of n @ rest) = parse_digits U n True rest"
proof (induction n arbitrary: d rest rule: digits_of.induct)
  case (1 n)
  show ?case
  proof (cases "n < 10")
    case True
    then show ?thesis by (simp add: digits_of.simps [of n] digit_val_def)
  next
    case False
    have m: "n mod 10 \<le> 9" using mod_less_divisor [of 10 n] by linarith
    have "parse_digits U 0 d (digits_of n @ rest)
        = parse_digits U 0 d (digits_of (n div 10) @ ((48 + n mod 10) # rest))"
      using False by (simp add: digits_of.simps [of n])
    also have "\<dots> = parse_digits U (n div 10) True ((48 + n mod 10) # rest)"
      using False by (intro "1.IH") simp
    also have "\<dots> = parse_digits U (n div 10 * 10 + n mod 10) True rest"
      using m by (simp add: digit_val_def)
    also have "n div 10 * 10 + n mod 10 = n" by simp
    finally show ?thesis .
  qed
qed

lemma strip_nothing:
  assumes "\<forall>c\<in>set s. \<not> sp c"
  shows "rev (dropWhile sp (rev (dropWhile sp s))) = s"
proof -
  have a: "dropWhile sp xs = xs" if "\<forall>c\<in>set xs. \<not> sp c" for xs
    using that by (cases xs) simp_all
  from assms have "dropWhile sp s = s" by (rule a)
  moreover from assms have "dropWhile sp (rev s) = rev s" by (intro a) simp
  ultimately show ?thesis by simp
qed

lemma int_space_digit:
  "c \<in> set (str_int p) \<Longrightarrow> \<not> int_space U c"
  using digits_of_range [of c] by (auto simp: str_int_def int_space_def split: if_splits)

lemma py_int_unspaced:
  assumes "\<forall>c\<in>set s. \<not> int_space U c"
  shows "py_int U s =
     (case s of
        [] \<Rightarrow> None
      | c # cs \<Rightarrow>
          if c = 45 then map_option (\<lambda>n. - int n) (parse_digits U 0 False cs)
          else if c = 43 then map_option int (parse_digits U 0 False cs)
          else map_option int (parse_digits U 0 False (c # cs)))"
  unfolding py_int_def strip_nothing [OF assms] ..

lemma py_int_str_int:
  "py_int U (str_int p) = Some p"
proof -
  have u: "\<forall>c\<in>set (str_int p). \<not> int_space U c"
    using int_space_digit [of _ p U] by blast
  show ?thesis
  proof (cases "p < 0")
    case True
    have "parse_digits U 0 False (digits_of (nat (- p)) @ []) = parse_digits U (nat (- p)) True []"
      by (rule parse_digits_of)
    then have d: "parse_digits U 0 False (digits_of (nat (- p))) = Some (nat (- p))" by simp
    have e: "str_int p = 45 # digits_of (nat (- p))" using True by (simp add: str_int_def)
    show ?thesis unfolding py_int_unspaced [OF u] unfolding e using True d by simp
  next
    case False
    obtain c cs where d: "digits_of (nat p) = c # cs"
      using digits_of_nonempty [of "nat p"] by (cases "digits_of (nat p)") auto
    then have "c \<in> set (digits_of (nat p))" by simp
    then have c: "c \<noteq> 45" "c \<noteq> 43" using digits_of_range [of c "nat p"] by auto
    have "parse_digits U 0 False (digits_of (nat p) @ []) = parse_digits U (nat p) True []"
      by (rule parse_digits_of)
    then have v: "parse_digits U 0 False (c # cs) = Some (nat p)" using d by simp
    have e: "str_int p = c # cs" using False d by (simp add: str_int_def)
    show ?thesis unfolding py_int_unspaced [OF u] unfolding e using False c v by simp
  qed
qed

lemma split_once_at:
  "sep \<notin> set a \<Longrightarrow> split_once sep (a @ sep # r) = Some (a, r)"
proof -
  assume n: "sep \<notin> set a"
  then have "\<And>x. x \<in> set a \<Longrightarrow> x \<noteq> sep" by blast
  then have "takeWhile (\<lambda>c. c \<noteq> sep) (a @ sep # r) = a @ takeWhile (\<lambda>c. c \<noteq> sep) (sep # r)"
    and "dropWhile (\<lambda>c. c \<noteq> sep) (a @ sep # r) = dropWhile (\<lambda>c. c \<noteq> sep) (sep # r)"
    by (simp_all add: takeWhile_append2 dropWhile_append2)
  then show ?thesis by (simp add: split_once_def)
qed

lemma str_int_no_underscore:
  "95 \<notin> set (str_int p)"
  using digits_of_range [of 95] by (auto simp: str_int_def)

lemma split_page_callback:
  "split_max2 95 (page_callback p q) = [ustr ''page'', str_int p, q]"
proof -
  have "page_callback p q = ustr ''page'' @ 95 # (str_int p @ 95 # q)"
    by (simp add: page_callback_def)
  moreover have "95 \<notin> set (ustr ''page'')" by simp
  ultimately have "split_once 95 (page_callback p q) = Some (ustr ''page'', str_int p @ 95 # q)"
    using split_once_at [of 95 "ustr ''page''" "str_int p @ 95 # q"] by simp
  moreover have "split_once 95 (str_int p @ 95 # q) = Some (str_int p, q)"
    using str_int_no_underscore by (rule split_once_at)
  ultimately show ?thesis by (simp add: split_max2_def)
qed

lemma decode_page_callback:
  "decode_payload U (page_callback p q) = Some (p, q)"
  by (simp add: decode_payload_def split_page_callback py_int_str_int)



lemma keyboard_buttons_decode:
  assumes "b \<in> set (hd (create_pagination_keyboard current_page total_pages query ads))"
  shows "(b = PrevPage d \<longrightarrow> decode_payload U d = Some (current_page - 1, query))
       \<and> (b = NextPage d \<longrightarrow> decode_payload U d = Some (current_page + 1, query))"
  using assms by (auto simp: create_pagination_keyboard_def decode_page_callback split: if_splits)


section \<open>Properties of the catalog store\<close>


lemma check_book_exists_None:
  "check_book_exists db t = None \<longleftrightarrow> (\<forall>e\<in>set (ebooks db). title e \<noteq> t)"
  by (auto simp: check_book_exists_def find_None_iff)

text \<open>
  Claim C5. In every store that holds an entry titled \<open>t\<close>, the exact-title lookup
  finds an entry, and \<open>add_book\<close> for the title \<open>t\<close> returns \<open>False\<close> and leaves the store
  exactly as it was.
\<close>

theorem add_book_rejects_existing_title:
  assumes "e \<in> set (ebooks db)" and "title e = t"
  shows "check_book_exists db t \<noteq> None \<and> add_book db t msg chat fid now = (False, db)"
proof -
  from assms have "check_book_exists db t \<noteq> None"
    unfolding check_book_exists_None by blast
  then show ?thesis by (auto simp: add_book_def)
qed

theorem add_book_rejects_existing_title_witness:
  "\<lparr>title = ustr ''X'', message_id = 1, chat_id = 1, file_id = ustr ''f1'', added_date = 100\<rparr>
     \<in> set (ebooks stale_store)
   \<and> check_book_exists stale_store (ustr ''X'') \<noteq> None
   \<and> add_book stale_store (ustr ''X'') 2 1 (ustr ''f2'') 300 = (False, stale_store)"
proof -
  have m: "\<lparr>title = ustr ''X'', message_id = 1, chat_id = 1, file_id = ustr ''f1'', added_date = 100\<rparr>
     \<in> set (ebooks stale_store)"
    by (simp add: stale_store_def)
  show ?thesis
    using m add_book_rejects_existing_title [OF m, of "ustr ''X''" 2 1 "ustr ''f2''" 300]
    by simp
qed

lemma add_book_inserts_new_title:
  "\<forall>e\<in>set (ebooks db). title e \<noteq> t \<Longrightarrow>
     add_book db t msg chat fid now =
       (True, db\<lparr>ebooks := ebooks db @
          [\<lparr>title = t, message_id = msg, chat_id = chat, file_id = fid, added_date = now\<rparr>]\<rparr>)"
  using check_book_exists_None [of db t] by (simp add: add_book_def)

text \<open>
  Claim C2, as stated: when several entries share a title, the exact-title lookup returns
  the most recently inserted of them. In the store with two entries titled X the lookup
  returns the entry of message 1, and the most recently inserted one is that of message 2.
\<close>

theorem entry_exists_most_recent_counterexample:
  "check_book_exists twice_store (ustr ''X'') = Some (ustr ''X'', 1, 1, ustr ''f1'')
   \<and> most_recent_titled twice_store (ustr ''X'') = Some (ustr ''X'', 2, 1, ustr ''f2'')
   \<and> check_book_exists twice_store (ustr ''X'') \<noteq> most_recent_titled twice_store (ustr ''X'')"
  by (simp add: check_book_exists_def most_recent_titled_def twice_store_def book_of_def)

text \<open>
  Claim C2, amended: the exact-title lookup returns the earliest inserted entry of that
  title, the first in key order, whatever was inserted after it; it returns nothing exactly
  when no entry has the title.
\<close>

theorem check_book_exists_earliest:
  "(check_book_exists db t = Some b \<longleftrightarrow>
      (\<exists>i<length (ebooks db). title (ebooks db ! i) = t \<and> b = book_of (ebooks db ! i)
         \<and> (\<forall>j<i. title (ebooks db ! j) \<noteq> t)))
   \<and> (check_book_exists db t = None \<longleftrightarrow> (\<forall>e\<in>set (ebooks db). title e \<noteq> t))"
proof -
  have "check_book_exists db t = Some b \<longleftrightarrow>
      (\<exists>e. find (\<lambda>e. title e = t) (ebooks db) = Some e \<and> b = book_of e)"
    by (auto simp: check_book_exists_def)
  also have "\<dots> \<longleftrightarrow> (\<exists>i<length (ebooks db). title (ebooks db ! i) = t
      \<and> b = book_of (ebooks db ! i) \<and> (\<forall>j<i. title (ebooks db ! j) \<noteq> t))"
    unfolding find_Some_iff by blast
  finally show ?thesis using check_book_exists_None [of db t] by blast
qed

theorem check_book_exists_earliest_witness:
  "check_book_exists twice_store (ustr ''X'') = Some (ustr ''X'', 1, 1, ustr ''f1'')
   \<and> (\<exists>i<length (ebooks twice_store). title (ebooks twice_store ! i) = ustr ''X''
        \<and> (ustr ''X'', 1, 1, ustr ''f1'') = book_of (ebooks twice_store ! i)
        \<and> (\<forall>j<i. title (ebooks twice_store ! j) \<noteq> ustr ''X''))
   \<and> length (filter (\<lambda>e. title e = ustr ''X'') (ebooks twice_store)) = 2"
proof -
  have "check_book_exists twice_store (ustr ''X'') = Some (ustr ''X'', 1, 1, ustr ''f1'')"
    by (simp add: check_book_exists_def twice_store_def book_of_def)
  moreover have "length (filter (\<lambda>e. title e = ustr ''X'') (ebooks twice_store)) = 2"
    by (simp add: twice_store_def)
  ultimately show ?thesis
    using check_book_exists_earliest [of twice_store "ustr ''X''" "(ustr ''X'', 1, 1, ustr ''f1'')"]
    by simp
qed

text \<open>
  Claim C4 says that deactivating an advertisement that is already inactive returns
  \<open>False\<close>. On the store whose only advertisement, number 1, is inactive,
  \<open>remove_advertisement\<close> returns \<open>True\<close> and changes nothing, while \<open>edit_advertisement\<close>
  and \<open>get_advertisement\<close>, which select on \<open>is_active = 1\<close>, treat the same number as
  absent.
\<close>

theorem remove_advertisement_inactive:
  "remove_advertisement retired_store 1 = (True, retired_store)
   \<and> edit_advertisement retired_store 1 (ustr ''new'') (ustr ''https://t.me/y'') = (False, retired_store)
   \<and> get_advertisement retired_store 1 = None"
  by (simp add: remove_advertisement_def edit_advertisement_def get_advertisement_def
      retired_store_def)

text \<open>
  What \<open>remove_advertisement\<close> returns depends on the number alone: \<open>False\<close> when no row
  has it, \<open>True\<close> when a row has it, active or not.
\<close>

lemma remove_advertisement_absent:
  "\<forall>a\<in>set (advertisements db). ad_id a \<noteq> i \<Longrightarrow> remove_advertisement db i = (False, db)"
proof -
  assume a: "\<forall>a\<in>set (advertisements db). ad_id a \<noteq> i"
  then have "filter (\<lambda>a. ad_id a = i) (advertisements db) = []"
    by (simp add: filter_empty_conv)
  moreover from a have "map (\<lambda>a. if ad_id a = i then a\<lparr>is_active := False\<rparr> else a) (advertisements db)
      = advertisements db"
    by (intro map_idI) simp
  ultimately show ?thesis by (simp add: remove_advertisement_def)
qed

lemma remove_advertisement_present:
  "a \<in> set (advertisements db) \<Longrightarrow> ad_id a = i \<Longrightarrow> fst (remove_advertisement db i)"
  by (auto simp: remove_advertisement_def filter_empty_conv)

lemma edit_advertisement_inactive:
  "\<forall>a\<in>set (advertisements db). ad_id a = i \<longrightarrow> \<not> is_active a \<Longrightarrow>
     edit_advertisement db i new_text new_url = (False, db)"
proof -
  assume a: "\<forall>a\<in>set (advertisements db). ad_id a = i \<longrightarrow> \<not> is_active a"
  then have "filter (\<lambda>a. ad_id a = i \<and> is_active a) (advertisements db) = []"
    by (auto simp: filter_empty_conv)
  moreover from a have "map (\<lambda>a. if ad_id a = i \<and> is_active a
      then a\<lparr>ad_text := new_text, ad_url := new_url\<rparr> else a) (advertisements db) = advertisements db"
    by (intro map_idI) auto
  ultimately show ?thesis by (simp add: edit_advertisement_def)
qed


section \<open>Properties of the search and of the ingestion\<close>


text \<open>
  \<open>check_message_exists\<close> asks the table \<open>ebooks\<close> whether it holds a row for the message,
  so for the message of any row of the table the answer is yes, and the loop of
  \<open>search_books\<close> never reaches the branch that deletes: a search reads the store and
  leaves it as it was.
\<close>

lemma check_message_exists_row:
  "e \<in> set (ebooks db) \<Longrightarrow> check_message_exists db (chat_id e) (message_id e)"
  unfolding check_message_exists_def
  by (rule length_pos_if_in_set [of e]) simp














text \<open>
  Claim C1 says that a search deletes an entry whose message no longer exists in the chat,
  leaves it out of the result and counts it out of the total. Take the store with the one
  entry titled X for message 1 of chat 1, after that message has been deleted from the
  chat. The search for X returns the entry with the total 1 and leaves it in the store:
  the existence check looks the message up in the store itself and never asks the chat.
\<close>

theorem search_books_keeps_stale_entry:
  "search_books stale_store (ustr ''X'') 1 10 =
     (([(ustr ''X'', 1, 1, ustr ''f1'')], 1), stale_store)"
  by (simp add: search_books_def paged_query_def ranked_books_def matching_rows_def
      sql_limit_offset_def stale_store_def book_of_def check_message_exists_def ascii_fold_def)

text \<open>
  The same check guards the reclaim of a stale title in \<open>handle_document\<close>: the entry the
  lookup found is a row of the table, so its message is always reported to exist, and an
  upload whose title is taken is always answered as a duplicate.
\<close>

lemma check_book_exists_message_exists:
  "check_book_exists db t = Some (existing_title, existing_msg_id, existing_chat_id, fid) \<Longrightarrow>
     check_message_exists db existing_chat_id existing_msg_id"
proof -
  assume "check_book_exists db t = Some (existing_title, existing_msg_id, existing_chat_id, fid)"
  then obtain e where "find (\<lambda>e. title e = t) (ebooks db) = Some e"
    and b: "book_of e = (existing_title, existing_msg_id, existing_chat_id, fid)"
    by (auto simp: check_book_exists_def)
  then have "e \<in> set (ebooks db)" by (auto simp: find_Some_iff)
  then have "check_message_exists db (chat_id e) (message_id e)"
    by (rule check_message_exists_row)
  with b show ?thesis by (simp add: book_of_def)
qed

lemma handle_document_existing_title:
  assumes "name \<noteq> []" and "is_ebook U name"
    and "check_book_exists db (clean_title U name) = Some (t, m, c, f)"
  shows "handle_document U db (Some name) msg chat fid now = (Duplicate t m c, db)"
  using assms check_book_exists_message_exists [OF assms(3)]
  by (simp add: handle_document_def)

text \<open>
  Claim C3 says that an upload whose title is held by an entry with a deleted message
  succeeds and replaces that entry. On the same store, with message 1 deleted from the
  chat, the upload of \<open>X.pdf\<close> as message 2 is answered as a duplicate of message 1 and the
  store is unchanged; \<open>add_book\<close> for the title returns \<open>False\<close>.
\<close>

theorem upload_over_stale_entry:
  "handle_document ascii_tables stale_store (Some (ustr ''X.pdf'')) 2 1 (ustr ''f2'') 300 =
     (Duplicate (ustr ''X'') 1 1, stale_store)
   \<and> add_book stale_store (ustr ''X'') 2 1 (ustr ''f2'') 300 = (False, stale_store)"
proof -
  have t: "clean_title ascii_tables (ustr ''X.pdf'') = ustr ''X''" by code_simp
  have e: "is_ebook ascii_tables (ustr ''X.pdf'')"
    by (simp add: is_ebook_def endswith_def py_lower_def lower_cp_def)
  have c: "check_book_exists stale_store (ustr ''X'') = Some (ustr ''X'', 1, 1, ustr ''f1'')"
    by (simp add: check_book_exists_def stale_store_def book_of_def)
  have m: "check_message_exists stale_store 1 1"
    by (simp add: check_message_exists_def stale_store_def)
  have "handle_document ascii_tables stale_store (Some (ustr ''X.pdf'')) 2 1 (ustr ''f2'') 300 =
     (Duplicate (ustr ''X'') 1 1, stale_store)"
    unfolding handle_document_def using t e c m by simp
  moreover have "add_book stale_store (ustr ''X'') 2 1 (ustr ''f2'') 300 = (False, stale_store)"
    using c by (simp add: add_book_def)
  ultimately show ?thesis by simp
qed


end
